theory Spec2Isabelle
  imports Main "HOL-Library.AList"
begin

section \<open>JavaScript values\<close>

text \<open>
  The values that \<open>login\<close> receives, that \<open>JSON.parse\<close> returns and that the
  \<open>user\<close> state cell holds: the JSON-representable JavaScript values. \<open>JNull\<close> is
  \<open>null\<close>, the initial value of \<open>useState(null)\<close>. A number is an integer, as in
  the user the login page builds, \<open>{ id: 1, name: username }\<close>; a string is the list
  of its code units, each below 256; an object is the list of its own properties in
  enumeration order.
\<close>

datatype jsvalue =
    JNull
  | JBool bool
  | JNum int
  | JStr string
  | JArr "jsvalue list"
  | JObj "(string \<times> jsvalue) list"

text \<open>JavaScript's ToBoolean, the test behind \<open>!user\<close> and \<open>user ? a : b\<close>.\<close>

fun truthy :: "jsvalue \<Rightarrow> bool" where
  "truthy JNull = False"
| "truthy (JBool b) = b"
| "truthy (JNum n) = (n \<noteq> 0)"
| "truthy (JStr s) = (s \<noteq> [])"
| "truthy (JArr vs) = True"
| "truthy (JObj kvs) = True"

text \<open>
  What the code can throw: a SyntaxError from \<open>JSON.parse\<close>, a TypeError from
  destructuring \<open>null\<close> or reading a property of it, and the Error with which React
  refuses an object given as a child (\<open>InvalidReactChild\<close>). The other two are no
  JavaScript exceptions. \<open>JSON_parse\<close>
  below answers \<open>Unmodelled\<close> for a text that leaves the fragment of JSON modelled
  here, and nothing is then said about what the platform does. \<open>OutOfFuel\<close> marks
  the bound of the parser's recursion; \<open>JSON_parse\<close> never answers it
  (\<open>JSON_parse_fuel\<close>).
\<close>

datatype error = SyntaxError | TypeError | InvalidReactChild | Unmodelled | OutOfFuel

section \<open>The platform: \<open>JSON.stringify\<close>\<close>

text \<open>
  \<open>JSON.stringify(value)\<close> with no replacer and no indentation, after ECMA-262
  (SerializeJSONProperty, QuoteJSONString, Number::toString on an integer below
  \<open>10^21\<close>).
\<close>

definition is_digit :: "char \<Rightarrow> bool" where
  "is_digit c = (48 \<le> (of_char c :: nat) \<and> (of_char c :: nat) \<le> 57)"

definition digit_char :: "nat \<Rightarrow> char" where
  "digit_char d = char_of (48 + d)"

fun show_nat :: "nat \<Rightarrow> string" where
  "show_nat n = (if n < 10 then [digit_char n] else show_nat (n div 10) @ [digit_char (n mod 10)])"

declare show_nat.simps [simp del]

definition Number_toString :: "int \<Rightarrow> string" where
  "Number_toString i = (if i < 0 then CHR ''-'' # show_nat (nat (- i)) else show_nat (nat i))"

text \<open>A lower-case hexadecimal digit, for the unicode escape of a control character.\<close>

definition hex_char :: "nat \<Rightarrow> char" where
  "hex_char d = (if d < 10 then char_of (48 + d) else char_of (87 + d))"

definition escape_char :: "char \<Rightarrow> string" where
  "escape_char c =
     (if c = CHR 0x08 then [CHR 0x5C, CHR ''b'']
      else if c = CHR 0x09 then [CHR 0x5C, CHR ''t'']
      else if c = CHR 0x0A then [CHR 0x5C, CHR ''n'']
      else if c = CHR 0x0C then [CHR 0x5C, CHR ''f'']
      else if c = CHR 0x0D then [CHR 0x5C, CHR ''r'']
      else if c = CHR 0x22 then [CHR 0x5C, CHR 0x22]
      else if c = CHR 0x5C then [CHR 0x5C, CHR 0x5C]
      else if (of_char c :: nat) < 0x20
        then [CHR 0x5C, CHR ''u'', CHR ''0'', CHR ''0'',
              hex_char (of_char c div 16), hex_char (of_char c mod 16)]
      else [c])"

definition QuoteJSONString :: "string \<Rightarrow> string" where
  "QuoteJSONString s = CHR 0x22 # concat (map escape_char s) @ [CHR 0x22]"

fun join :: "string list \<Rightarrow> string" where
  "join [] = []"
| "join [x] = x"
| "join (x # y # ys) = x @ CHR '','' # join (y # ys)"

fun JSON_stringify :: "jsvalue \<Rightarrow> string" where
  "JSON_stringify JNull = ''null''"
| "JSON_stringify (JBool b) = (if b then ''true'' else ''false'')"
| "JSON_stringify (JNum i) = Number_toString i"
| "JSON_stringify (JStr s) = QuoteJSONString s"
| "JSON_stringify (JArr vs) = CHR ''['' # join (map JSON_stringify vs) @ '']''"
| "JSON_stringify (JObj kvs) =
     CHR ''{'' # join (map (\<lambda>(k, v). QuoteJSONString k @ CHR '':'' # JSON_stringify v) kvs) @ ''}''"

section \<open>The platform: \<open>JSON.parse\<close>\<close>

text \<open>
  \<open>JSON.parse(text)\<close> with no reviver, after the JSON grammar of ECMA-404: white
  space, the three literals, strings with their escapes, numbers, arrays and objects.
  A text ill-formed for the grammar is a \<open>SyntaxError\<close>. The answer is \<open>Unmodelled\<close>
  where the text denotes a value outside \<open>jsvalue\<close> or where the list of properties
  would not be in the text's order: a number with a fraction or an exponent, an integer
  beyond \<open>2^53 - 1\<close>, negative zero, a unicode escape of a code unit
  above \<open>0xFF\<close>, a property name made of digits (JavaScript enumerates array indices
  first).
\<close>

definition is_ws :: "char \<Rightarrow> bool" where
  "is_ws c = (c = CHR 0x20 \<or> c = CHR 0x09 \<or> c = CHR 0x0A \<or> c = CHR 0x0D)"

definition skip_ws :: "string \<Rightarrow> string" where
  "skip_ws s = dropWhile is_ws s"

definition hex_val :: "char \<Rightarrow> nat option" where
  "hex_val c =
     (let n = (of_char c :: nat) in
      if 48 \<le> n \<and> n \<le> 57 then Some (n - 48)
      else if 97 \<le> n \<and> n \<le> 102 then Some (n - 87)
      else if 65 \<le> n \<and> n \<le> 70 then Some (n - 55)
      else None)"

definition unescape :: "char \<Rightarrow> char option" where
  "unescape e =
     (if e = CHR 0x22 then Some (CHR 0x22)
      else if e = CHR 0x5C then Some (CHR 0x5C)
      else if e = CHR ''/'' then Some (CHR ''/'')
      else if e = CHR ''b'' then Some (CHR 0x08)
      else if e = CHR ''f'' then Some (CHR 0x0C)
      else if e = CHR ''n'' then Some (CHR 0x0A)
      else if e = CHR ''r'' then Some (CHR 0x0D)
      else if e = CHR ''t'' then Some (CHR 0x09)
      else None)"

definition cons_result :: "'a \<Rightarrow> error + ('a list \<times> string) \<Rightarrow> error + ('a list \<times> string)" where
  "cons_result x r = (case r of Inl e \<Rightarrow> Inl e | Inr (xs, rest) \<Rightarrow> Inr (x # xs, rest))"

fun parse_chars :: "string \<Rightarrow> error + (string \<times> string)" where
  "parse_chars [] = Inl SyntaxError"
| "parse_chars (c # cs) =
     (if c = CHR 0x22 then Inr ([], cs)
      else if c = CHR 0x5C then
        (case cs of
           [] \<Rightarrow> Inl SyntaxError
         | e # cs' \<Rightarrow>
             if e = CHR ''u'' then
               (case cs' of
                  h1 # h2 # h3 # h4 # cs'' \<Rightarrow>
                    (case (hex_val h1, hex_val h2, hex_val h3, hex_val h4) of
                       (Some a, Some b, Some c, Some d) \<Rightarrow>
                         if ((a * 16 + b) * 16 + c) * 16 + d < 256
                         then cons_result (char_of (((a * 16 + b) * 16 + c) * 16 + d)) (parse_chars cs'')
                         else Inl Unmodelled
                     | _ \<Rightarrow> Inl SyntaxError)
                | _ \<Rightarrow> Inl SyntaxError)
             else
               (case unescape e of
                  None \<Rightarrow> Inl SyntaxError
                | Some x \<Rightarrow> cons_result x (parse_chars cs')))
      else if (of_char c :: nat) < 0x20 then Inl SyntaxError
      else cons_result c (parse_chars cs))"

definition digits_val :: "string \<Rightarrow> int" where
  "digits_val ds = foldl (\<lambda>a c. 10 * a + (of_char c - 48)) 0 ds"

definition parse_number :: "string \<Rightarrow> error + (int \<times> string)" where
  "parse_number s =
     (let neg = (s \<noteq> [] \<and> hd s = CHR ''-'');
          s1 = (if neg then tl s else s);
          ds = takeWhile is_digit s1;
          rest = dropWhile is_digit s1
      in if ds = [] then Inl SyntaxError
         else if hd ds = CHR ''0'' \<and> tl ds \<noteq> [] then Inl SyntaxError
         else if rest \<noteq> [] \<and> hd rest \<in> {CHR ''.'', CHR ''e'', CHR ''E''} then Inl Unmodelled
         else if digits_val ds > 2 ^ 53 - 1 then Inl Unmodelled
         else if neg \<and> digits_val ds = 0 then Inl Unmodelled
         else Inr (if neg then - digits_val ds else digits_val ds, rest))"

text \<open>
  A repeated property name overwrites the earlier value and keeps its place, which is
  what \<open>AList.update\<close> does; a fresh name is appended.
\<close>

definition index_like :: "string \<Rightarrow> bool" where
  "index_like k = (k \<noteq> [] \<and> list_all is_digit k)"

definition make_object :: "(string \<times> jsvalue) list \<Rightarrow> error + jsvalue" where
  "make_object kvs =
     (if list_ex index_like (map fst kvs) then Inl Unmodelled
      else Inr (JObj (fold (\<lambda>(k, v). AList.update k v) kvs [])))"

text \<open>
  The recursive descent. The first argument bounds the number of nested calls;
  \<open>JSON_parse\<close> starts it above twice the length of the text, which is enough for
  every text.
\<close>

fun parse_value :: "nat \<Rightarrow> string \<Rightarrow> error + (jsvalue \<times> string)"
  and parse_elements :: "nat \<Rightarrow> string \<Rightarrow> error + (jsvalue list \<times> string)"
  and parse_members :: "nat \<Rightarrow> string \<Rightarrow> error + ((string \<times> jsvalue) list \<times> string)"
where
  "parse_value 0 s = Inl OutOfFuel"
| "parse_value (Suc n) s =
     (let t = skip_ws s in
      if take 4 t = ''null'' then Inr (JNull, drop 4 t)
      else if take 4 t = ''true'' then Inr (JBool True, drop 4 t)
      else if take 5 t = ''false'' then Inr (JBool False, drop 5 t)
      else
        (case t of
           [] \<Rightarrow> Inl SyntaxError
         | c # cs \<Rightarrow>
             if c = CHR 0x22 then
               (case parse_chars cs of
                  Inl e \<Rightarrow> Inl e
                | Inr (str, r) \<Rightarrow> Inr (JStr str, r))
             else if c = CHR ''-'' \<or> is_digit c then
               (case parse_number t of
                  Inl e \<Rightarrow> Inl e
                | Inr (i, r) \<Rightarrow> Inr (JNum i, r))
             else if c = CHR ''['' then
               (case skip_ws cs of
                  [] \<Rightarrow> Inl SyntaxError
                | d # r \<Rightarrow>
                    if d = CHR '']'' then Inr (JArr [], r)
                    else
                      (case parse_elements n (d # r) of
                         Inl e \<Rightarrow> Inl e
                       | Inr (vs, r') \<Rightarrow> Inr (JArr vs, r')))
             else if c = CHR ''{'' then
               (case skip_ws cs of
                  [] \<Rightarrow> Inl SyntaxError
                | d # r \<Rightarrow>
                    if d = CHR ''}'' then Inr (JObj [], r)
                    else
                      (case parse_members n (d # r) of
                         Inl e \<Rightarrow> Inl e
                       | Inr (kvs, r') \<Rightarrow>
                           (case make_object kvs of
                              Inl e \<Rightarrow> Inl e
                            | Inr obj \<Rightarrow> Inr (obj, r'))))
             else Inl SyntaxError))"
| "parse_elements 0 s = Inl OutOfFuel"
| "parse_elements (Suc n) s =
     (case parse_value n s of
        Inl e \<Rightarrow> Inl e
      | Inr (v, r) \<Rightarrow>
          (case skip_ws r of
             [] \<Rightarrow> Inl SyntaxError
           | c # r' \<Rightarrow>
               if c = CHR '','' then cons_result v (parse_elements n r')
               else if c = CHR '']'' then Inr ([v], r')
               else Inl SyntaxError))"
| "parse_members 0 s = Inl OutOfFuel"
| "parse_members (Suc n) s =
     (case skip_ws s of
        [] \<Rightarrow> Inl SyntaxError
      | q # cs \<Rightarrow>
          if q = CHR 0x22 then
            (case parse_chars cs of
               Inl e \<Rightarrow> Inl e
             | Inr (k, r) \<Rightarrow>
                 (case skip_ws r of
                    [] \<Rightarrow> Inl SyntaxError
                  | c # r' \<Rightarrow>
                      if c = CHR '':'' then
                        (case parse_value n r' of
                           Inl e \<Rightarrow> Inl e
                         | Inr (v, r2) \<Rightarrow>
                             (case skip_ws r2 of
                                [] \<Rightarrow> Inl SyntaxError
                              | d # r3 \<Rightarrow>
                                  if d = CHR '','' then cons_result (k, v) (parse_members n r3)
                                  else if d = CHR ''}'' then Inr ([(k, v)], r3)
                                  else Inl SyntaxError))
                      else Inl SyntaxError))
          else Inl SyntaxError)"

definition JSON_parse :: "string \<Rightarrow> error + jsvalue" where
  "JSON_parse s =
     (case parse_value (Suc (2 * length s)) s of
        Inl e \<Rightarrow> Inl e
      | Inr (v, r) \<Rightarrow> if skip_ws r = [] then Inr v else Inl SyntaxError)"

section \<open>The platform: \<open>localStorage\<close>\<close>

text \<open>
  The durable key-value store of the browser: strings to strings. \<open>getItem\<close> answers
  \<open>null\<close>, here \<open>None\<close>, for a key that is not stored.
\<close>

type_synonym storage = "string \<rightharpoonup> string"

definition getItem :: "storage \<Rightarrow> string \<Rightarrow> string option" where
  "getItem sto k = sto k"

definition setItem :: "storage \<Rightarrow> string \<Rightarrow> string \<Rightarrow> storage" where
  "setItem sto k v = sto(k \<mapsto> v)"

definition removeItem :: "storage \<Rightarrow> string \<Rightarrow> storage" where
  "removeItem sto k = sto(k := None)"

section \<open>AuthContext.js\<close>

text \<open>
  The two \<open>useState\<close> cells of \<open>AuthProvider\<close>, which its context value exposes to
  every consumer, and with them the store the provider reads and writes.
\<close>

record session =
  user :: jsvalue
  loading :: bool

record app_state = session +
  localStorage :: storage

text \<open>\<open>useState(null)\<close> and \<open>useState(true)\<close>, over the store found at startup.\<close>

definition AuthProvider_init :: "storage \<Rightarrow> app_state" where
  "AuthProvider_init sto = \<lparr>user = JNull, loading = True, localStorage = sto\<rparr>"

text \<open>
  The effect with the empty dependency list, run once after the first render. The
  test \<open>if (storedUser)\<close> fails for \<open>null\<close> and for the empty string. An exception of
  \<open>JSON.parse\<close> leaves the effect before \<open>setLoading(false)\<close>: nothing catches it.
\<close>

definition AuthProvider_effect :: "app_state \<Rightarrow> error + app_state" where
  "AuthProvider_effect st =
     (case getItem (localStorage st) ''user'' of
        None \<Rightarrow> Inr (st\<lparr>loading := False\<rparr>)
      | Some storedUser \<Rightarrow>
          if storedUser \<noteq> [] then
            (case JSON_parse storedUser of
               Inl e \<Rightarrow> Inl e
             | Inr parsed \<Rightarrow> Inr (st\<lparr>user := parsed, loading := False\<rparr>))
          else Inr (st\<lparr>loading := False\<rparr>))"

definition login :: "jsvalue \<Rightarrow> app_state \<Rightarrow> app_state" where
  "login userData st =
     st\<lparr>user := userData,
        localStorage := setItem (localStorage st) ''user'' (JSON_stringify userData)\<rparr>"

definition logout :: "app_state \<Rightarrow> app_state" where
  "logout st = st\<lparr>user := JNull, localStorage := removeItem (localStorage st) ''user''\<rparr>"

text \<open>
  What can happen to a mounted provider: a consumer calls \<open>login\<close> or \<open>logout\<close>, or
  React renders the component again, which reads the state cells and runs no effect,
  the dependency list being empty.
\<close>

datatype event = Login jsvalue | Logout | Rerender

fun AuthProvider_handle :: "event \<Rightarrow> app_state \<Rightarrow> app_state" where
  "AuthProvider_handle (Login userData) st = login userData st"
| "AuthProvider_handle Logout st = logout st"
| "AuthProvider_handle Rerender st = st"

text \<open>The life of the provider: the first render, the effect, then the events in order.\<close>

definition AuthProvider_run :: "storage \<Rightarrow> event list \<Rightarrow> error + app_state" where
  "AuthProvider_run sto evs =
     (case AuthProvider_effect (AuthProvider_init sto) of
        Inl e \<Rightarrow> Inl e
      | Inr st \<Rightarrow> Inr (fold AuthProvider_handle evs st))"

text \<open>
  \<open>useContext\<close> gives the value of the nearest provider above the caller, or the
  default passed to \<open>createContext\<close> when there is none. The first \<open>option\<close> says
  whether a provider is above; the second is the value, \<open>None\<close> for \<open>null\<close>.
  \<open>AuthContext = createContext(null)\<close>.
\<close>

definition useContext :: "'a \<Rightarrow> 'a option \<Rightarrow> 'a" where
  "useContext dflt provider = (case provider of None \<Rightarrow> dflt | Some v \<Rightarrow> v)"

definition AuthContext_default :: "'a option" where
  "AuthContext_default = None"

definition useAuth :: "'a option option \<Rightarrow> 'a option" where
  "useAuth provider = useContext AuthContext_default provider"

text \<open>
  \<open>const { user, loading } = useAuth()\<close>, the way every consumer reads the hook:
  destructuring \<open>null\<close> throws a TypeError.
\<close>

definition destructure :: "'a option \<Rightarrow> error + 'a" where
  "destructure v = (case v of None \<Rightarrow> Inl TypeError | Some s \<Rightarrow> Inr s)"

section \<open>ProtectedRoute.js\<close>

text \<open>What a component hands to React: the loading \<open>div\<close>, an element, or \<open>null\<close>.\<close>

datatype 'c rendered = LoadingDiv | Element 'c | Null

text \<open>The effect of \<open>ProtectedRoute\<close>: the path given to \<open>navigate\<close>, if it is called.\<close>

definition ProtectedRoute_effect :: "'a session_scheme \<Rightarrow> string option" where
  "ProtectedRoute_effect s =
     (if loading s then None
      else if \<not> truthy (user s) then Some ''/login''
      else None)"

definition ProtectedRoute_render :: "'c \<Rightarrow> 'a session_scheme \<Rightarrow> 'c rendered" where
  "ProtectedRoute_render children s =
     (if loading s then LoadingDiv
      else if truthy (user s) then Element children else Null)"

definition ProtectedRoute ::
  "'c \<Rightarrow> 'a session_scheme option option \<Rightarrow> error + ('c rendered \<times> string option)" where
  "ProtectedRoute children provider =
     (case destructure (useAuth provider) of
        Inl e \<Rightarrow> Inl e
      | Inr s \<Rightarrow> Inr (ProtectedRoute_render children s, ProtectedRoute_effect s))"

text \<open>
  The three decisions of the Access Gate, read off what \<open>ProtectedRoute\<close> renders and
  where its effect navigates.
\<close>

definition ShowPlaceholder :: "'c rendered \<times> string option" where
  "ShowPlaceholder = (LoadingDiv, None)"

definition RedirectTo :: "string \<Rightarrow> 'c rendered \<times> string option" where
  "RedirectTo path = (Null, Some path)"

definition RenderProtected :: "'c \<Rightarrow> 'c rendered \<times> string option" where
  "RenderProtected children = (Element children, None)"

section \<open>The pages\<close>

text \<open>
  \<open>handleLogin\<close> of LoginPage.js and \<open>handleLogout\<close> of DashboardPage.js: the new
  state and the path navigated to.
\<close>

definition handleLogin :: "string \<Rightarrow> app_state \<Rightarrow> app_state \<times> string" where
  "handleLogin username st =
     (login (JObj [(''id'', JNum 1), (''name'', JStr username)]) st, ''/dashboard'')"

definition handleLogout :: "app_state \<Rightarrow> app_state \<times> string" where
  "handleLogout st = (logout st, ''/login'')"

text \<open>
  \<open>user.name\<close>. Reading a property of \<open>null\<close> throws a TypeError. An object answers
  its own property \<open>name\<close>, or \<open>undefined\<close>, written \<open>None\<close>, when it has none
  (the property names of a value that stands for an object are distinct). A boolean, a
  number, a string or an array has no property of that name.
\<close>

fun Get_name :: "jsvalue \<Rightarrow> error + jsvalue option" where
  "Get_name JNull = Inl TypeError"
| "Get_name (JObj kvs) = Inr (map_of kvs ''name'')"
| "Get_name v = Inr None"

text \<open>
  What React accepts as a child inside an element: \<open>null\<close>, \<open>undefined\<close> and the
  booleans render nothing, a number or a string renders as text, an array renders its
  items in turn. An object is refused: React throws an Error and, no error boundary
  being mounted, takes the whole tree down.
\<close>

fun valid_child :: "jsvalue \<Rightarrow> bool" where
  "valid_child (JObj kvs) = False"
| "valid_child (JArr vs) = list_all valid_child vs"
| "valid_child v = True"

text \<open>\<open>{user.name}\<close> inside an element: the child rendered, or the exception.\<close>

definition render_name :: "jsvalue \<Rightarrow> error + jsvalue option" where
  "render_name u =
     (case Get_name u of
        Inl e \<Rightarrow> Inl e
      | Inr None \<Rightarrow> Inr None
      | Inr (Some n) \<Rightarrow> if valid_child n then Inr (Some n) else Inl InvalidReactChild)"

text \<open>
  What the other consumers of \<open>useAuth\<close> render. Each starts by destructuring what
  the hook returns; the markup is reduced to the block that the test on \<open>user\<close>
  selects, with the name it shows. HomePage.jsx: the welcome with \<open>{user.name}\<close> and
  the link to the dashboard, or the invitation to log in.
\<close>

datatype home_block = WelcomeBack "jsvalue option" | NotLoggedIn

definition HomePage_render :: "'a session_scheme option option \<Rightarrow> error + home_block" where
  "HomePage_render provider =
     (case destructure (useAuth provider) of
        Inl e \<Rightarrow> Inl e
      | Inr s \<Rightarrow>
          if truthy (user s) then
            (case render_name (user s) of
               Inl e \<Rightarrow> Inl e
             | Inr n \<Rightarrow> Inr (WelcomeBack n))
          else Inr NotLoggedIn)"

text \<open>
  DashboardPage.js: the greeting with \<open>{user.name}\<close>, or the line shown while there
  is no user.
\<close>

datatype dashboard_block = Welcome "jsvalue option" | LoadingUserData

definition DashboardPage_render :: "'a session_scheme option option \<Rightarrow> error + dashboard_block" where
  "DashboardPage_render provider =
     (case destructure (useAuth provider) of
        Inl e \<Rightarrow> Inl e
      | Inr s \<Rightarrow>
          if truthy (user s) then
            (case render_name (user s) of
               Inl e \<Rightarrow> Inl e
             | Inr n \<Rightarrow> Inr (Welcome n))
          else Inr LoadingUserData)"

text \<open>LoginPage.js takes \<open>login\<close> from the hook and renders its form.\<close>

datatype login_block = LoginForm

definition LoginPage_render :: "'a session_scheme option option \<Rightarrow> error + login_block" where
  "LoginPage_render provider =
     (case destructure (useAuth provider) of
        Inl e \<Rightarrow> Inl e
      | Inr s \<Rightarrow> Inr LoginForm)"

section \<open>App.js\<close>

text \<open>
  \<open>Navigation\<close>: after the link home, the link to the dashboard and
  \<open>(Logged in as {user.name})\<close>, or the link to the login page.
\<close>

datatype navigation_block = DashboardLink "jsvalue option" | LoginLink

definition Navigation :: "'a session_scheme option option \<Rightarrow> error + navigation_block" where
  "Navigation provider =
     (case destructure (useAuth provider) of
        Inl e \<Rightarrow> Inl e
      | Inr s \<Rightarrow>
          if truthy (user s) then
            (case render_name (user s) of
               Inl e \<Rightarrow> Inl e
             | Inr n \<Rightarrow> Inr (DashboardLink n))
          else Inr LoginLink)"

datatype page = HomePage | LoginPage | DashboardPage | NotFoundPage

text \<open>The \<open>element\<close> of a route: a page, or a page wrapped in \<open>ProtectedRoute\<close>.\<close>

datatype element = Page page | Protected page

definition App_routes :: "(string \<times> element) list" where
  "App_routes =
     [(''/'', Page HomePage),
      (''/login'', Page LoginPage),
      (''/dashboard'', Protected DashboardPage),
      (''*'', Page NotFoundPage)]"

text \<open>
  \<open>Routes\<close> renders the first route, in the order written, whose path matches the
  location; \<open>*\<close> matches every location. How the router compares a plain path with
  the location (case, trailing slash) is the parameter \<open>m\<close>.
\<close>

fun Routes :: "(string \<Rightarrow> string \<Rightarrow> bool) \<Rightarrow> (string \<times> element) list \<Rightarrow> string \<Rightarrow> element option" where
  "Routes m [] location = None"
| "Routes m ((path, el) # rs) location =
     (if path = ''*'' \<or> m path location then Some el else Routes m rs location)"

text \<open>
  What a page shows once React has rendered it. \<open>NotFoundPage\<close> calls no hook and
  renders fixed markup.
\<close>

datatype page_view =
    HomeView home_block
  | LoginView login_block
  | DashboardView dashboard_block
  | NotFoundView

fun render_page :: "page \<Rightarrow> 'a session_scheme option option \<Rightarrow> error + page_view" where
  "render_page HomePage provider =
     (case HomePage_render provider of Inl e \<Rightarrow> Inl e | Inr b \<Rightarrow> Inr (HomeView b))"
| "render_page LoginPage provider =
     (case LoginPage_render provider of Inl e \<Rightarrow> Inl e | Inr b \<Rightarrow> Inr (LoginView b))"
| "render_page DashboardPage provider =
     (case DashboardPage_render provider of Inl e \<Rightarrow> Inl e | Inr b \<Rightarrow> Inr (DashboardView b))"
| "render_page NotFoundPage provider = Inr NotFoundView"

text \<open>
  The element of the matched route, rendered down to the page: what is shown and where
  the effect of \<open>ProtectedRoute\<close> navigates. The children of \<open>ProtectedRoute\<close> are
  rendered when it returns them.
\<close>

fun render_element ::
  "element \<Rightarrow> 'a session_scheme option option \<Rightarrow> error + (page_view rendered \<times> string option)" where
  "render_element (Page p) provider =
     (case render_page p provider of
        Inl e \<Rightarrow> Inl e
      | Inr v \<Rightarrow> Inr (Element v, None))"
| "render_element (Protected p) provider =
     (case ProtectedRoute p provider of
        Inl e \<Rightarrow> Inl e
      | Inr (LoadingDiv, target) \<Rightarrow> Inr (LoadingDiv, target)
      | Inr (Null, target) \<Rightarrow> Inr (Null, target)
      | Inr (Element children, target) \<Rightarrow>
          (case render_page children provider of
             Inl e \<Rightarrow> Inl e
           | Inr v \<Rightarrow> Inr (Element v, target)))"

text \<open>
  \<open>App\<close>, under the \<open>AuthProvider\<close> whose state is \<open>st\<close>: \<open>Navigation\<close>, the rule
  and the routes, in this order. An exception while any of them renders leaves nothing
  on the page. The result is the navigation block, what the matched route shows, and
  where the route navigates.
\<close>

definition App ::
  "(string \<Rightarrow> string \<Rightarrow> bool) \<Rightarrow> string \<Rightarrow> app_state \<Rightarrow>
   error + (navigation_block \<times> page_view rendered \<times> string option)" where
  "App m location st =
     (case Navigation (Some (Some st)) of
        Inl e \<Rightarrow> Inl e
      | Inr nav \<Rightarrow>
          (case Routes m App_routes location of
             None \<Rightarrow> Inr (nav, Null, None)
           | Some el \<Rightarrow>
               (case render_element el (Some (Some st)) of
                  Inl e \<Rightarrow> Inl e
                | Inr (shown, target) \<Rightarrow> Inr (nav, shown, target))))"

section \<open>Notions used by the theorems\<close>

text \<open>A User record is a JavaScript object, as \<open>{ id: 1, name: username }\<close>.\<close>

fun is_User :: "jsvalue \<Rightarrow> bool" where
  "is_User (JObj kvs) = True"
| "is_User _ = False"

text \<open>
  The users whose \<open>{user.name}\<close> React renders: the name is missing, or it is not an
  object and holds none.
\<close>

definition name_renders :: "jsvalue \<Rightarrow> bool" where
  "name_renders u =
     (case Get_name u of
        Inl e \<Rightarrow> False
      | Inr None \<Rightarrow> True
      | Inr (Some n) \<Rightarrow> valid_child n)"

text \<open>
  The values of \<open>jsvalue\<close> that stand for a JavaScript value: numbers are safe
  integers, and the property names of an object are distinct and none is made of digits.
\<close>

fun wf_value :: "jsvalue \<Rightarrow> bool" where
  "wf_value JNull = True"
| "wf_value (JBool b) = True"
| "wf_value (JNum i) = (\<bar>i\<bar> \<le> 2 ^ 53 - 1)"
| "wf_value (JStr s) = True"
| "wf_value (JArr vs) = list_all wf_value vs"
| "wf_value (JObj kvs) =
     (distinct (map fst kvs) \<and> \<not> list_ex index_like (map fst kvs) \<and>
      list_all (\<lambda>kv. wf_value (snd kv)) kvs)"

text \<open>A bound on the nested calls that parsing the text of a value takes.\<close>

fun fuel :: "jsvalue \<Rightarrow> nat" where
  "fuel (JArr vs) = 2 + sum_list (map fuel vs)"
| "fuel (JObj kvs) = 2 + sum_list (map (\<lambda>kv. fuel (snd kv)) kvs)"
| "fuel _ = 1"

text \<open>What may follow the text of a value inside an array or an object.\<close>

definition number_end :: "string \<Rightarrow> bool" where
  "number_end rest = (rest = [] \<or> hd rest \<in> {CHR '','', CHR '']'', CHR ''}''})"

definition value_start :: "char \<Rightarrow> bool" where
  "value_start c =
     (c \<in> {CHR ''n'', CHR ''t'', CHR ''f'', CHR 0x22, CHR ''-'', CHR ''['', CHR ''{''} \<or> is_digit c)"

section \<open>\<open>JSON_parse\<close> answers for every text\<close>

text \<open>
  Each parser that succeeds leaves less text than it was given, so the nested calls on
  a text of length \<open>n\<close> are at most \<open>2 * n + 1\<close> deep and the bound that \<open>JSON_parse\<close>
  starts from is never reached.
\<close>

lemma cons_result_Inr:
  "cons_result x r = Inr (xs, rest) \<longleftrightarrow> (\<exists>ys. r = Inr (ys, rest) \<and> xs = x # ys)"
  by (auto simp: cons_result_def split: sum.splits)

lemma cons_result_Inl: "cons_result x r = Inl e \<longleftrightarrow> r = Inl e"
  by (auto simp: cons_result_def split: sum.splits)

lemma parse_chars_length: "parse_chars s = Inr (x, r) \<Longrightarrow> length r < length s"
proof (induction "length s" arbitrary: s x rule: less_induct)
  case less
  have h: "\<And>t y. parse_chars t = Inr (y, r) \<Longrightarrow> length t < length s \<Longrightarrow> length r < length s"
    using less.hyps by fastforce
  show ?case
  proof (cases s)
    case Nil
    with less.prems show ?thesis by simp
  next
    case (Cons c cs)
    with less.prems show ?thesis
      by (auto simp: cons_result_Inr split: if_splits list.splits option.splits dest!: h)
  qed
qed

lemma parse_chars_fuel: "parse_chars s \<noteq> Inl OutOfFuel"
proof (induction "length s" arbitrary: s rule: less_induct)
  case less
  have h: "\<And>t. parse_chars t = Inl OutOfFuel \<Longrightarrow> length t < length s \<Longrightarrow> False"
    using less.hyps by blast
  show ?case
  proof (cases s)
    case Nil
    then show ?thesis by auto
  next
    case (Cons c cs)
    show ?thesis
    proof
      assume "parse_chars s = Inl OutOfFuel"
      with Cons show False
        by (auto simp: cons_result_Inl split: if_splits list.splits option.splits dest!: h)
    qed
  qed
qed

lemma parse_number_length: "parse_number s = Inr (i, r) \<Longrightarrow> length r < length s"
proof -
  assume a: "parse_number s = Inr (i, r)"
  define s1 where "s1 = (if s \<noteq> [] \<and> hd s = CHR ''-'' then tl s else s)"
  have r: "r = dropWhile is_digit s1" and ne: "takeWhile is_digit s1 \<noteq> []"
    using a by (auto simp: parse_number_def Let_def s1_def split: if_splits)
  have "length (takeWhile is_digit s1) + length (dropWhile is_digit s1) = length s1"
    by (metis length_append takeWhile_dropWhile_id)
  with ne have "length r < length s1" by (cases "takeWhile is_digit s1") (auto simp: r)
  moreover have "length s1 \<le> length s" by (simp add: s1_def)
  ultimately show ?thesis by simp
qed

lemma parse_number_fuel: "parse_number s \<noteq> Inl OutOfFuel"
  by (auto simp: parse_number_def Let_def split: if_splits)

lemma make_object_fuel: "make_object kvs \<noteq> Inl OutOfFuel"
  by (auto simp: make_object_def split: if_splits)

lemma skip_ws_length: "length (skip_ws s) \<le> length s"
  by (simp add: skip_ws_def length_dropWhile_le)

lemma skip_ws_Cons_length: "skip_ws a = d # b \<Longrightarrow> length b < length a"
  using skip_ws_length [of a] by simp

lemma parse_value_length_step:
  assumes E: "\<And>s vs r. parse_elements n s = Inr (vs, r) \<Longrightarrow> length r < length s"
    and M: "\<And>s kvs r. parse_members n s = Inr (kvs, r) \<Longrightarrow> length r < length s"
    and p: "parse_value (Suc n) s = Inr (v, r)"
  shows "length r < length s"
proof -
  define t where "t = skip_ws s"
  have ts: "length t \<le> length s" by (simp add: t_def skip_ws_length)
  have "length r < length t"
  proof (cases t)
    case Nil
    with p show ?thesis by (simp add: t_def [symmetric] Let_def)
  next
    case (Cons c cs)
    with p show ?thesis
      by (auto simp: t_def [symmetric] Let_def split: if_splits list.splits sum.splits
          dest!: parse_chars_length parse_number_length E M skip_ws_Cons_length)
  qed
  with ts show ?thesis by simp
qed

lemma parse_elements_length_step:
  assumes V: "\<And>s v r. parse_value n s = Inr (v, r) \<Longrightarrow> length r < length s"
    and E: "\<And>s vs r. parse_elements n s = Inr (vs, r) \<Longrightarrow> length r < length s"
    and p: "parse_elements (Suc n) s = Inr (vs, r)"
  shows "length r < length s"
  using p
  by (auto simp: cons_result_Inr split: if_splits list.splits sum.splits
      dest!: V E skip_ws_Cons_length)

lemma parse_members_length_step:
  assumes V: "\<And>s v r. parse_value n s = Inr (v, r) \<Longrightarrow> length r < length s"
    and M: "\<And>s kvs r. parse_members n s = Inr (kvs, r) \<Longrightarrow> length r < length s"
    and p: "parse_members (Suc n) s = Inr (kvs, r)"
  shows "length r < length s"
  using p
  by (auto simp: cons_result_Inr split: if_splits list.splits sum.splits
      dest!: V M skip_ws_Cons_length parse_chars_length)

lemma parse_length:
  "(parse_value n s = Inr (v, r) \<longrightarrow> length r < length s) \<and>
   (parse_elements n s = Inr (vs, r) \<longrightarrow> length r < length s) \<and>
   (parse_members n s = Inr (kvs, r) \<longrightarrow> length r < length s)"
proof (induction n arbitrary: s v vs kvs r)
  case 0
  show ?case by simp
next
  case (Suc n)
  show ?case
    using Suc
    by (blast intro: parse_value_length_step parse_elements_length_step parse_members_length_step)
qed

lemma parse_value_length: "parse_value n s = Inr (v, r) \<Longrightarrow> length r < length s"
  using parse_length by blast

lemma parse_value_fuel_step:
  assumes E: "\<And>s. parse_elements n s = Inl OutOfFuel \<Longrightarrow> n \<le> 2 * length s + 1"
    and M: "\<And>s. parse_members n s = Inl OutOfFuel \<Longrightarrow> n \<le> 2 * length s + 1"
    and p: "parse_value (Suc n) s = Inl OutOfFuel"
  shows "Suc n \<le> 2 * length s"
proof -
  define t where "t = skip_ws s"
  have ts: "length t \<le> length s" by (simp add: t_def skip_ws_length)
  have "Suc n \<le> 2 * length t"
  proof (cases t)
    case Nil
    with p show ?thesis by (simp add: t_def [symmetric] Let_def)
  next
    case (Cons c cs)
    with p show ?thesis
      using parse_chars_fuel parse_number_fuel make_object_fuel
      by (auto simp: t_def [symmetric] Let_def split: if_splits list.splits sum.splits
          dest!: E M skip_ws_Cons_length)
  qed
  with ts show ?thesis by simp
qed

lemma parse_elements_fuel_step:
  assumes V: "\<And>s. parse_value n s = Inl OutOfFuel \<Longrightarrow> n \<le> 2 * length s"
    and E: "\<And>s. parse_elements n s = Inl OutOfFuel \<Longrightarrow> n \<le> 2 * length s + 1"
    and p: "parse_elements (Suc n) s = Inl OutOfFuel"
  shows "Suc n \<le> 2 * length s + 1"
  using p
  by (auto simp: cons_result_Inl split: if_splits list.splits sum.splits
      dest!: V E skip_ws_Cons_length parse_value_length)

lemma parse_members_fuel_step:
  assumes V: "\<And>s. parse_value n s = Inl OutOfFuel \<Longrightarrow> n \<le> 2 * length s"
    and M: "\<And>s. parse_members n s = Inl OutOfFuel \<Longrightarrow> n \<le> 2 * length s + 1"
    and p: "parse_members (Suc n) s = Inl OutOfFuel"
  shows "Suc n \<le> 2 * length s + 1"
  using p parse_chars_fuel
  by (auto simp: cons_result_Inl split: if_splits list.splits sum.splits
      dest!: V M skip_ws_Cons_length parse_value_length parse_chars_length)

lemma parse_fuel:
  "(parse_value n s = Inl OutOfFuel \<longrightarrow> n \<le> 2 * length s) \<and>
   (parse_elements n s = Inl OutOfFuel \<longrightarrow> n \<le> 2 * length s + 1) \<and>
   (parse_members n s = Inl OutOfFuel \<longrightarrow> n \<le> 2 * length s + 1)"
proof (induction n arbitrary: s)
  case 0
  show ?case by simp
next
  case (Suc n)
  show ?case
    using Suc
    by (blast intro: parse_value_fuel_step parse_elements_fuel_step parse_members_fuel_step)
qed

lemma JSON_parse_fuel: "JSON_parse s \<noteq> Inl OutOfFuel"
  using parse_fuel [of "Suc (2 * length s)" s]
  by (auto simp: JSON_parse_def split: sum.splits)

section \<open>\<open>JSON.parse\<close> reads back what \<open>JSON.stringify\<close> wrote\<close>

subsection \<open>Decimal digits\<close>

lemma of_char_digit_char: "d < 10 \<Longrightarrow> (of_char (digit_char d) :: nat) = 48 + d"
  by (simp add: digit_char_def)

lemma is_digit_digit_char: "d < 10 \<Longrightarrow> is_digit (digit_char d)"
  by (simp add: is_digit_def of_char_digit_char)

lemma of_char_digit_char_int: "d < 10 \<Longrightarrow> (of_char (digit_char d) :: int) = 48 + int d"
proof -
  assume d: "d < 10"
  have "(of_char (digit_char d) :: int) = int (of_char (digit_char d))"
    by (simp only: of_nat_of_char)
  with d show ?thesis by (simp add: of_char_digit_char)
qed

lemma digit_char_0: "d < 10 \<Longrightarrow> digit_char d = CHR ''0'' \<longleftrightarrow> d = 0"
proof -
  assume d: "d < 10"
  have "digit_char d = CHR ''0'' \<longleftrightarrow> (of_char (digit_char d) :: nat) = of_char (CHR ''0'')"
    by (simp only: of_char_eq_iff)
  with d show ?thesis by (simp add: of_char_digit_char)
qed

lemma is_digit_simps [simp]:
  "\<not> is_digit (CHR ''-'')" "\<not> is_digit (CHR '','')" "\<not> is_digit (CHR '']'')" "\<not> is_digit (CHR ''}'')"
  "\<not> is_digit (CHR 0x22)" "\<not> is_digit (CHR ''['')" "\<not> is_digit (CHR ''{'')"
  by (simp_all add: is_digit_def)

lemma show_nat_digits: "list_all is_digit (show_nat n)"
  by (induction n rule: show_nat.induct) (subst show_nat.simps, simp add: is_digit_digit_char)

lemma show_nat_nonempty: "show_nat n \<noteq> []"
  by (subst show_nat.simps) simp

lemma digits_val_append: "digits_val (xs @ [c]) = 10 * digits_val xs + (of_char c - 48)"
  by (simp add: digits_val_def)

lemma digits_val_show_nat: "digits_val (show_nat n) = int n"
proof (induction n rule: show_nat.induct)
  case (1 n)
  show ?case
  proof (cases "n < 10")
    case True
    then show ?thesis
      by (subst show_nat.simps) (simp add: digits_val_def of_char_digit_char_int)
  next
    case False
    have "digits_val (show_nat n) = 10 * digits_val (show_nat (n div 10)) + (of_char (digit_char (n mod 10)) - 48)"
      using False by (subst show_nat.simps) (simp add: digits_val_append)
    also have "\<dots> = 10 * int (n div 10) + int (n mod 10)"
      using 1 False by (simp add: of_char_digit_char_int)
    also have "\<dots> = int n"
      by (simp add: zdiv_int zmod_int)
    finally show ?thesis .
  qed
qed

lemma show_nat_leading:
  "hd (show_nat n) = CHR ''0'' \<and> tl (show_nat n) \<noteq> [] \<Longrightarrow> False"
proof (induction n rule: show_nat.induct)
  case (1 n)
  show ?case
  proof (cases "n < 10")
    case True
    with 1(2) show ?thesis by (subst (asm) (1 2) show_nat.simps) simp
  next
    case False
    then have e: "show_nat n = show_nat (n div 10) @ [digit_char (n mod 10)]"
      by (subst show_nat.simps) simp
    have ne: "show_nat (n div 10) \<noteq> []" by (rule show_nat_nonempty)
    from 1(2) e ne have h: "hd (show_nat (n div 10)) = CHR ''0''" by simp
    show ?thesis
    proof (cases "n div 10 < 10")
      case True
      then have "show_nat (n div 10) = [digit_char (n div 10)]"
        by (subst show_nat.simps) simp
      with h True have "n div 10 = 0" by (simp add: digit_char_0)
      with False show ?thesis by simp
    next
      case F2: False
      then have "tl (show_nat (n div 10)) \<noteq> []"
        by (subst show_nat.simps) (simp add: show_nat_nonempty)
      with 1(1) False h show ?thesis by simp
    qed
  qed
qed

subsection \<open>Numbers\<close>

lemma takeWhile_digits:
  "list_all is_digit ds \<Longrightarrow> number_end rest \<Longrightarrow> takeWhile is_digit (ds @ rest) = ds"
  by (cases rest) (auto simp: number_end_def list_all_iff takeWhile_append2)

lemma dropWhile_digits:
  "list_all is_digit ds \<Longrightarrow> number_end rest \<Longrightarrow> dropWhile is_digit (ds @ rest) = rest"
  by (cases rest) (auto simp: number_end_def list_all_iff dropWhile_append2)

lemma show_nat_hd_digit: "is_digit (hd (show_nat n))"
  using show_nat_digits [of n] show_nat_nonempty [of n]
  by (cases "show_nat n") simp_all

lemma parse_number_show_nat:
  assumes "int n \<le> 2 ^ 53 - 1" and "number_end rest"
  shows "parse_number (show_nat n @ rest) = Inr (int n, rest)"
proof -
  have ne: "show_nat n \<noteq> []" by (rule show_nat_nonempty)
  have hd: "hd (show_nat n @ rest) \<noteq> CHR ''-''"
    using show_nat_hd_digit [of n] ne by auto
  have lead: "\<not> (hd (show_nat n) = CHR ''0'' \<and> tl (show_nat n) \<noteq> [])"
    using show_nat_leading [of n] by blast
  have r: "\<not> (rest \<noteq> [] \<and> hd rest \<in> {CHR ''.'', CHR ''e'', CHR ''E''})"
    using assms(2) by (auto simp: number_end_def)
  show ?thesis
    unfolding parse_number_def Let_def
    using ne hd lead r assms(1)
    by (simp add: takeWhile_digits [OF show_nat_digits assms(2)]
        dropWhile_digits [OF show_nat_digits assms(2)] digits_val_show_nat)
qed

lemma parse_number_Number_toString:
  assumes "\<bar>i\<bar> \<le> 2 ^ 53 - 1" and "number_end rest"
  shows "parse_number (Number_toString i @ rest) = Inr (i, rest)"
proof (cases "i < 0")
  case False
  with assms show ?thesis
    using parse_number_show_nat [of "nat i" rest] by (simp add: Number_toString_def)
next
  case True
  define n where "n = nat (- i)"
  have n: "int n = - i" "n \<noteq> 0" "int n \<le> 2 ^ 53 - 1"
    using True assms(1) by (simp_all add: n_def)
  have ne: "show_nat n \<noteq> []" by (rule show_nat_nonempty)
  have lead: "\<not> (hd (show_nat n) = CHR ''0'' \<and> tl (show_nat n) \<noteq> [])"
    using show_nat_leading [of n] by blast
  have r: "\<not> (rest \<noteq> [] \<and> hd rest \<in> {CHR ''.'', CHR ''e'', CHR ''E''})"
    using assms(2) by (auto simp: number_end_def)
  have "parse_number (CHR ''-'' # show_nat n @ rest) = Inr (- int n, rest)"
    unfolding parse_number_def Let_def
    using ne lead r n
    by (simp add: takeWhile_digits [OF show_nat_digits assms(2)]
        dropWhile_digits [OF show_nat_digits assms(2)] digits_val_show_nat)
  with True n show ?thesis by (simp add: Number_toString_def n_def)
qed

lemma Number_toString_hd:
  "Number_toString i \<noteq> [] \<and> (hd (Number_toString i) = CHR ''-'' \<or> is_digit (hd (Number_toString i)))"
  using show_nat_hd_digit show_nat_nonempty by (simp add: Number_toString_def)

subsection \<open>Strings\<close>

lemma hex_val_hex_char: "d < 16 \<Longrightarrow> hex_val (hex_char d) = Some d"
  by (auto simp: hex_val_def hex_char_def Let_def)

lemma hex_val_0: "hex_val (CHR ''0'') = Some 0"
  by (simp add: hex_val_def)

lemma parse_chars_unicode_escape:
  assumes "(of_char c :: nat) < 0x20"
  shows "parse_chars (CHR 0x5C # CHR ''u'' # CHR ''0'' # CHR ''0'' #
           hex_char (of_char c div 16) # hex_char (of_char c mod 16) # t)
         = cons_result c (parse_chars t)"
proof -
  define n :: nat where "n = of_char c"
  have n: "n < 32" using assms by (simp add: n_def)
  have c: "char_of n = c" by (simp add: n_def)
  have h: "hex_val (hex_char (n div 16)) = Some (n div 16)" "hex_val (hex_char (n mod 16)) = Some (n mod 16)"
    using n by (simp_all add: hex_val_hex_char)
  have v: "n div 16 * 16 + n mod 16 = n" by simp
  show ?thesis
    unfolding n_def [symmetric]
    using n by (simp add: h hex_val_0 v c)
qed

lemma parse_chars_escape_char:
  "parse_chars (escape_char c @ t) = cons_result c (parse_chars t)"
proof -
  consider
      (tab) "c \<in> {CHR 0x08, CHR 0x09, CHR 0x0A, CHR 0x0C, CHR 0x0D, CHR 0x22, CHR 0x5C}"
    | (ctl) "c \<notin> {CHR 0x08, CHR 0x09, CHR 0x0A, CHR 0x0C, CHR 0x0D, CHR 0x22, CHR 0x5C}"
            "(of_char c :: nat) < 0x20"
    | (lit) "c \<notin> {CHR 0x08, CHR 0x09, CHR 0x0A, CHR 0x0C, CHR 0x0D, CHR 0x22, CHR 0x5C}"
            "\<not> (of_char c :: nat) < 0x20"
    by blast
  then show ?thesis
  proof cases
    case tab
    then show ?thesis by (auto simp: escape_char_def unescape_def)
  next
    case ctl
    then have "escape_char c = [CHR 0x5C, CHR ''u'', CHR ''0'', CHR ''0'',
        hex_char (of_char c div 16), hex_char (of_char c mod 16)]"
      by (simp add: escape_char_def)
    then show ?thesis
      using parse_chars_unicode_escape [OF ctl(2), of t] by simp
  next
    case lit
    then show ?thesis by (simp add: escape_char_def)
  qed
qed

lemma parse_chars_quoted:
  "parse_chars (concat (map escape_char s) @ CHR 0x22 # rest) = Inr (s, rest)"
  by (induction s) (simp_all add: parse_chars_escape_char cons_result_def)

subsection \<open>Objects\<close>

lemma update_fresh: "k \<notin> fst ` set acc \<Longrightarrow> AList.update k v acc = acc @ [(k, v)]"
  by (induction acc) auto

lemma fold_update_distinct:
  "distinct (map fst kvs) \<Longrightarrow> fst ` set kvs \<inter> fst ` set acc = {} \<Longrightarrow>
   fold (\<lambda>(k, v). AList.update k v) kvs acc = acc @ kvs"
proof (induction kvs arbitrary: acc)
  case Nil
  then show ?case by simp
next
  case (Cons kv kvs)
  obtain k v where kv: "kv = (k, v)" by (cases kv)
  from Cons.prems have fresh: "k \<notin> fst ` set acc" by (auto simp: kv)
  have "fold (\<lambda>(k, v). AList.update k v) (kv # kvs) acc
        = fold (\<lambda>(k, v). AList.update k v) kvs (acc @ [(k, v)])"
    by (simp add: kv update_fresh [OF fresh])
  also have "\<dots> = (acc @ [(k, v)]) @ kvs"
    using Cons.prems by (intro Cons.IH) (auto simp: kv)
  finally show ?case by (simp add: kv)
qed

lemma make_object_wf:
  "distinct (map fst kvs) \<Longrightarrow> \<not> list_ex index_like (map fst kvs) \<Longrightarrow>
   make_object kvs = Inr (JObj kvs)"
  using fold_update_distinct [of kvs "[]"] by (simp add: make_object_def)

subsection \<open>Values\<close>

lemma value_start_not_ws: "value_start c \<Longrightarrow> \<not> is_ws c"
  by (auto simp: value_start_def is_ws_def is_digit_def)

lemma skip_ws_start: "s \<noteq> [] \<Longrightarrow> value_start (hd s) \<Longrightarrow> skip_ws s = s"
  by (cases s) (auto simp: skip_ws_def dest: value_start_not_ws)

lemma skip_ws_simps [simp]:
  "skip_ws (CHR '','' # s) = CHR '','' # s"
  "skip_ws (CHR '']'' # s) = CHR '']'' # s"
  "skip_ws (CHR ''}'' # s) = CHR ''}'' # s"
  "skip_ws (CHR '':'' # s) = CHR '':'' # s"
  "skip_ws (CHR 0x22 # s) = CHR 0x22 # s"
  "skip_ws (CHR ''['' # s) = CHR ''['' # s"
  "skip_ws (CHR ''{'' # s) = CHR ''{'' # s"
  "skip_ws [] = []"
  by (simp_all add: skip_ws_def is_ws_def)

lemma JSON_stringify_start:
  "JSON_stringify v \<noteq> [] \<and> value_start (hd (JSON_stringify v))"
proof (cases v)
  case (JNum i)
  then show ?thesis
    using Number_toString_hd [of i] by (auto simp: value_start_def)
qed (simp_all add: value_start_def QuoteJSONString_def)

lemma JSON_stringify_not_close:
  "hd (JSON_stringify v) \<noteq> CHR '']''" "hd (JSON_stringify v) \<noteq> CHR ''}''"
  using JSON_stringify_start [of v] by (auto simp: value_start_def is_digit_def)

lemma parse_value_number:
  assumes "s \<noteq> []" and "hd s = CHR ''-'' \<or> is_digit (hd s)"
  shows "parse_value (Suc n) s =
    (case parse_number s of Inl e \<Rightarrow> Inl e | Inr (i, r) \<Rightarrow> Inr (JNum i, r))"
proof -
  obtain c cs where s: "s = c # cs" using assms(1) by (cases s) auto
  have c: "c = CHR ''-'' \<or> is_digit c" using assms(2) s by simp
  then have nws: "\<not> is_ws c" by (auto simp: is_ws_def is_digit_def)
  have sk: "skip_ws s = c # cs" using nws by (simp add: s skip_ws_def)
  have lits: "c \<noteq> CHR ''n''" "c \<noteq> CHR ''t''" "c \<noteq> CHR ''f''" "c \<noteq> CHR 0x22"
    using c by (auto simp: is_digit_def)
  show ?thesis
    unfolding parse_value.simps sk Let_def
    using lits c by (auto simp: s)
qed

lemma join_Cons: "xs \<noteq> [] \<Longrightarrow> join (x # xs) = x @ CHR '','' # join xs"
  by (cases xs) simp_all

lemma number_end_simps [simp]:
  "number_end []" "number_end (CHR '','' # s)" "number_end (CHR '']'' # s)" "number_end (CHR ''}'' # s)"
  by (simp_all add: number_end_def)

lemma parse_elements_roundtrip:
  assumes IH: "\<And>v n rest. v \<in> set vs \<Longrightarrow> wf_value v \<Longrightarrow> fuel v \<le> n \<Longrightarrow> number_end rest \<Longrightarrow>
            parse_value n (JSON_stringify v @ rest) = Inr (v, rest)"
    and "vs \<noteq> []" and "list_all wf_value vs" and "Suc (sum_list (map fuel vs)) \<le> n"
  shows "parse_elements n (join (map JSON_stringify vs) @ CHR '']'' # rest) = Inr (vs, rest)"
  using assms(2,1,3,4)
proof (induction vs arbitrary: n rule: list_nonempty_induct)
  case (single v)
  then obtain m where n: "n = Suc m" and m: "fuel v \<le> m" by (cases n) auto
  have "parse_value m (JSON_stringify v @ CHR '']'' # rest) = Inr (v, CHR '']'' # rest)"
    using single m by simp
  then show ?case by (simp add: n)
next
  case (cons v vs)
  then obtain m where n: "n = Suc m" and m: "fuel v + sum_list (map fuel vs) \<le> m" by (cases n) auto
  have f1: "1 \<le> fuel v" by (cases v) simp_all
  have pv: "parse_value m (JSON_stringify v @ CHR '','' # join (map JSON_stringify vs) @ CHR '']'' # rest)
      = Inr (v, CHR '','' # join (map JSON_stringify vs) @ CHR '']'' # rest)"
    using cons.prems m by simp
  have pe: "parse_elements m (join (map JSON_stringify vs) @ CHR '']'' # rest) = Inr (vs, rest)"
    using cons.prems m f1 by (intro cons.IH) auto
  show ?case
    using cons.hyps pv pe by (simp add: n join_Cons cons_result_def)
qed

lemma parse_members_roundtrip:
  assumes IH: "\<And>k v n rest. (k, v) \<in> set kvs \<Longrightarrow> wf_value v \<Longrightarrow> fuel v \<le> n \<Longrightarrow> number_end rest \<Longrightarrow>
            parse_value n (JSON_stringify v @ rest) = Inr (v, rest)"
    and "kvs \<noteq> []" and "list_all (\<lambda>kv. wf_value (snd kv)) kvs"
    and "Suc (sum_list (map (\<lambda>kv. fuel (snd kv)) kvs)) \<le> n"
  shows "parse_members n
           (join (map (\<lambda>(k, v). QuoteJSONString k @ CHR '':'' # JSON_stringify v) kvs) @ CHR ''}'' # rest)
         = Inr (kvs, rest)"
  using assms(2,1,3,4)
proof (induction kvs arbitrary: n rule: list_nonempty_induct)
  case (single kv)
  obtain k v where kv: "kv = (k, v)" by (cases kv)
  from single obtain m where n: "n = Suc m" and m: "fuel v \<le> m" by (cases n) (auto simp: kv)
  have "parse_value m (JSON_stringify v @ CHR ''}'' # rest) = Inr (v, CHR ''}'' # rest)"
    using single m by (simp add: kv)
  then show ?case
    by (simp add: n kv QuoteJSONString_def parse_chars_quoted)
next
  case (cons kv kvs)
  obtain k v where kv: "kv = (k, v)" by (cases kv)
  let ?tail = "join (map (\<lambda>(k, v). QuoteJSONString k @ CHR '':'' # JSON_stringify v) kvs) @ CHR ''}'' # rest"
  from cons.prems obtain m where n: "n = Suc m"
    and m: "fuel v + sum_list (map (\<lambda>kv. fuel (snd kv)) kvs) \<le> m" by (cases n) (auto simp: kv)
  have f1: "1 \<le> fuel v" by (cases v) simp_all
  have pv: "parse_value m (JSON_stringify v @ CHR '','' # ?tail) = Inr (v, CHR '','' # ?tail)"
    using cons.prems(2) m by (intro cons.prems(1)) (auto simp: kv)
  have pm: "parse_members m ?tail = Inr (kvs, rest)"
    using cons.prems m f1 by (intro cons.IH) auto
  show ?case
    using cons.hyps pv pm
    by (simp add: n kv join_Cons QuoteJSONString_def parse_chars_quoted cons_result_def)
qed

lemma parse_value_roundtrip:
  "wf_value v \<Longrightarrow> fuel v \<le> n \<Longrightarrow> number_end rest \<Longrightarrow>
   parse_value n (JSON_stringify v @ rest) = Inr (v, rest)"
proof (induction v arbitrary: n rest)
  case JNull
  then obtain m where "n = Suc m" by (cases n) auto
  then show ?case by (simp add: skip_ws_def is_ws_def)
next
  case (JBool b)
  then obtain m where "n = Suc m" by (cases n) auto
  then show ?case by (simp add: skip_ws_def is_ws_def)
next
  case (JNum i)
  then obtain m where n: "n = Suc m" by (cases n) auto
  have "parse_value (Suc m) (Number_toString i @ rest) =
      (case parse_number (Number_toString i @ rest) of
         Inl e \<Rightarrow> Inl e | Inr (i, r) \<Rightarrow> Inr (JNum i, r))"
    using Number_toString_hd [of i] by (intro parse_value_number) auto
  then show ?case
    using JNum.prems by (simp add: n parse_number_Number_toString)
next
  case (JStr s)
  then obtain m where "n = Suc m" by (cases n) auto
  then show ?case by (simp add: QuoteJSONString_def parse_chars_quoted)
next
  case (JArr vs)
  then obtain m where n: "n = Suc m" and m: "Suc (sum_list (map fuel vs)) \<le> m" by (cases n) auto
  show ?case
  proof (cases "vs = []")
    case True
    then show ?thesis by (simp add: n)
  next
    case False
    let ?body = "join (map JSON_stringify vs) @ CHR '']'' # rest"
    have pe: "parse_elements m ?body = Inr (vs, rest)"
      using JArr.IH JArr.prems(1) m False by (intro parse_elements_roundtrip) auto
    obtain v ws where vs: "vs = v # ws" using False by (cases vs) auto
    obtain d r where d: "JSON_stringify v = d # r" "value_start d" "d \<noteq> CHR '']''"
      using JSON_stringify_start [of v] JSON_stringify_not_close(1) [of v]
      by (cases "JSON_stringify v") auto
    have body: "\<exists>r'. ?body = d # r'"
      by (cases ws) (simp_all add: vs d)
    then obtain r' where r': "?body = d # r'" by blast
    have sk: "skip_ws (d # r') = d # r'"
      using d(2) by (intro skip_ws_start) auto
    have "parse_value (Suc m) (CHR ''['' # ?body) = Inr (JArr vs, rest)"
      unfolding parse_value.simps Let_def
      using pe d(3) by (simp add: r' sk)
    then show ?thesis by (simp add: n)
  qed
next
  case (JObj kvs)
  then obtain m where n: "n = Suc m"
    and m: "Suc (sum_list (map (\<lambda>kv. fuel (snd kv)) kvs)) \<le> m" by (cases n) auto
  show ?case
  proof (cases "kvs = []")
    case True
    then show ?thesis by (simp add: n)
  next
    case False
    let ?body = "join (map (\<lambda>(k, v). QuoteJSONString k @ CHR '':'' # JSON_stringify v) kvs) @ CHR ''}'' # rest"
    have IH: "\<And>k v n rest. (k, v) \<in> set kvs \<Longrightarrow> wf_value v \<Longrightarrow> fuel v \<le> n \<Longrightarrow> number_end rest \<Longrightarrow>
            parse_value n (JSON_stringify v @ rest) = Inr (v, rest)"
      using JObj.IH by fastforce
    have pm: "parse_members m ?body = Inr (kvs, rest)"
      using JObj.prems(1) m False by (intro parse_members_roundtrip IH) auto
    have mk: "make_object kvs = Inr (JObj kvs)"
      using JObj.prems(1) by (intro make_object_wf) auto
    obtain kv ws where kvs: "kvs = kv # ws" using False by (cases kvs) auto
    have "\<exists>r'. ?body = CHR 0x22 # r'"
      by (cases ws; cases kv) (simp_all add: kvs QuoteJSONString_def)
    then obtain r' where r': "?body = CHR 0x22 # r'" by blast
    have "parse_value (Suc m) (CHR ''{'' # ?body) = Inr (JObj kvs, rest)"
      unfolding parse_value.simps Let_def
      using pm mk by (simp add: r')
    then show ?thesis by (simp add: n)
  qed
qed

subsection \<open>The bound of \<open>JSON_parse\<close>\<close>

lemma length_join: "sum_list (map length xs) \<le> length (join xs)"
  by (induction xs rule: join.induct) simp_all

lemma fuel_le_length: "fuel v \<le> length (JSON_stringify v)"
proof (induction v)
  case (JNum i)
  then show ?case
    using Number_toString_hd [of i] by (cases "Number_toString i") simp_all
next
  case (JArr vs)
  have "sum_list (map fuel vs) \<le> sum_list (map length (map JSON_stringify vs))"
    unfolding map_map comp_def using JArr by (intro sum_list_mono) auto
  also have "\<dots> \<le> length (join (map JSON_stringify vs))" by (rule length_join)
  finally show ?case by simp
next
  case (JObj kvs)
  let ?f = "\<lambda>(k, v). QuoteJSONString k @ CHR '':'' # JSON_stringify v"
  have "sum_list (map (\<lambda>kv. fuel (snd kv)) kvs) \<le> sum_list (map length (map ?f kvs))"
    unfolding map_map comp_def
  proof (rule sum_list_mono)
    fix kv assume "kv \<in> set kvs"
    then have "fuel (snd kv) \<le> length (JSON_stringify (snd kv))"
      by (rule JObj [OF _ Basic_BNFs.snds.intros])
    then show "fuel (snd kv) \<le> length (?f kv)" by (cases kv) simp
  qed
  also have "\<dots> \<le> length (join (map ?f kvs))" by (rule length_join)
  finally show ?case by simp
qed (simp_all add: QuoteJSONString_def)

text \<open>The round trip through the text, for every value that stands for a JavaScript value.\<close>

lemma JSON_parse_stringify: "wf_value v \<Longrightarrow> JSON_parse (JSON_stringify v) = Inr v"
  using parse_value_roundtrip [of v "Suc (2 * length (JSON_stringify v))" "[]"] fuel_le_length [of v]
  by (simp add: JSON_parse_def)

lemma JSON_stringify_nonempty: "JSON_stringify v \<noteq> []"
  using JSON_stringify_start by blast

section \<open>The Access Gate\<close>

lemma is_User_truthy: "is_User u \<Longrightarrow> truthy u"
  by (cases u) simp_all

lemma ProtectedRoute_provided:
  "ProtectedRoute c (Some (Some s)) = Inr (ProtectedRoute_render c s, ProtectedRoute_effect s)"
  by (simp add: ProtectedRoute_def destructure_def useAuth_def useContext_def)

lemma ProtectedRoute_settled:
  "\<not> loading s \<Longrightarrow>
   ProtectedRoute c (Some (Some s)) =
     Inr (if truthy (user s) then RenderProtected c else RedirectTo ''/login'')"
  by (simp add: ProtectedRoute_provided ProtectedRoute_render_def ProtectedRoute_effect_def
      RenderProtected_def RedirectTo_def)

text \<open>
  C2. Under the provider, \<open>ProtectedRoute\<close> is a function of the session snapshot:
  with \<open>loading\<close> true it shows the placeholder; with \<open>loading\<close> false and the user
  \<open>null\<close> it renders nothing and navigates to \<open>/login\<close>; with \<open>loading\<close> false and
  a User record present it renders the wrapped children and navigates nowhere.
\<close>

theorem ProtectedRoute_decision:
  "(loading s \<longrightarrow> ProtectedRoute c (Some (Some s)) = Inr ShowPlaceholder) \<and>
   (\<not> loading s \<and> user s = JNull \<longrightarrow>
      ProtectedRoute c (Some (Some s)) = Inr (RedirectTo ''/login'')) \<and>
   (\<not> loading s \<and> is_User (user s) \<longrightarrow>
      ProtectedRoute c (Some (Some s)) = Inr (RenderProtected c))"
  by (auto simp: ProtectedRoute_settled is_User_truthy)
    (simp add: ProtectedRoute_provided ProtectedRoute_render_def ProtectedRoute_effect_def
      ShowPlaceholder_def)

theorem ProtectedRoute_decision_witness:
  "ProtectedRoute DashboardPage
     (Some (Some \<lparr>user = JObj [(''id'', JNum 1), (''name'', JStr ''ann'')], loading = True\<rparr>))
     = Inr ShowPlaceholder \<and>
   ProtectedRoute DashboardPage (Some (Some \<lparr>user = JNull, loading = False\<rparr>))
     = Inr (RedirectTo ''/login'') \<and>
   ProtectedRoute DashboardPage
     (Some (Some \<lparr>user = JObj [(''id'', JNum 1), (''name'', JStr ''ann'')], loading = False\<rparr>))
     = Inr (RenderProtected DashboardPage)"
  using
    ProtectedRoute_decision
      [of "\<lparr>user = JObj [(''id'', JNum 1), (''name'', JStr ''ann'')], loading = True\<rparr>" DashboardPage]
    ProtectedRoute_decision [of "\<lparr>user = JNull, loading = False\<rparr>" DashboardPage]
    ProtectedRoute_decision
      [of "\<lparr>user = JObj [(''id'', JNum 1), (''name'', JStr ''ann'')], loading = False\<rparr>" DashboardPage]
  by simp

lemma Routes_App_routes:
  "Routes m App_routes location =
     Some (if m ''/'' location then Page HomePage
           else if m ''/login'' location then Page LoginPage
           else if m ''/dashboard'' location then Protected DashboardPage
           else Page NotFoundPage)"
  by (simp add: App_routes_def)

lemma render_name_cases:
  "truthy u \<Longrightarrow>
   render_name u = (if name_renders u then Inr (case Get_name u of Inr n \<Rightarrow> n) else Inl InvalidReactChild)"
  by (cases u) (auto simp: render_name_def name_renders_def split: option.splits)

lemma Navigation_provided:
  "Navigation (Some (Some s)) =
     (if truthy (user s) then
        (case render_name (user s) of Inl e \<Rightarrow> Inl e | Inr n \<Rightarrow> Inr (DashboardLink n))
      else Inr LoginLink)"
  by (simp add: Navigation_def destructure_def useAuth_def useContext_def)

lemma render_page_provided:
  "render_page p (Some (Some s)) =
     (case p of
        HomePage \<Rightarrow>
          if truthy (user s) then
            (case render_name (user s) of Inl e \<Rightarrow> Inl e | Inr n \<Rightarrow> Inr (HomeView (WelcomeBack n)))
          else Inr (HomeView NotLoggedIn)
      | LoginPage \<Rightarrow> Inr (LoginView LoginForm)
      | DashboardPage \<Rightarrow>
          if truthy (user s) then
            (case render_name (user s) of Inl e \<Rightarrow> Inl e | Inr n \<Rightarrow> Inr (DashboardView (Welcome n)))
          else Inr (DashboardView LoadingUserData)
      | NotFoundPage \<Rightarrow> Inr NotFoundView)"
  by (cases p)
    (auto simp: HomePage_render_def LoginPage_render_def DashboardPage_render_def destructure_def
      useAuth_def useContext_def split: sum.splits)

lemma render_element_loading:
  "loading s \<Longrightarrow> render_element (Protected p) (Some (Some s)) = Inr (LoadingDiv, None)"
  by (simp add: ProtectedRoute_provided ProtectedRoute_render_def ProtectedRoute_effect_def)

lemma render_element_Page_target:
  "render_element (Page p) provider = Inr (shown, target) \<Longrightarrow>
   target = None \<and> (\<forall>b. p \<noteq> DashboardPage \<longrightarrow> shown \<noteq> Element (DashboardView b))"
  by (cases p)
    (auto simp: HomePage_render_def LoginPage_render_def split: sum.splits)

text \<open>
  C4. While hydration is unresolved the gate shows the placeholder, whatever the
  location and whatever is stored. The state is \<open>loading\<close> from the first render on,
  over every store; a \<open>loading\<close> snapshot makes \<open>ProtectedRoute\<close> show the placeholder,
  whatever user it holds; at every location \<open>App\<close>, in its first state, renders with
  the login link, navigates nowhere and does not show the dashboard; and in no
  \<open>loading\<close> state at all does \<open>App\<close> navigate or show the dashboard.
\<close>

theorem placeholder_while_loading:
  "loading (AuthProvider_init sto) \<and>
   (loading s \<longrightarrow> ProtectedRoute c (Some (Some s)) = Inr ShowPlaceholder) \<and>
   (\<exists>shown. App m location (AuthProvider_init sto) = Inr (LoginLink, shown, None) \<and>
      (\<forall>b. shown \<noteq> Element (DashboardView b))) \<and>
   (loading st \<and> App m location st = Inr (nav, shown', target) \<longrightarrow>
      target = None \<and> (\<forall>b. shown' \<noteq> Element (DashboardView b)))"
proof (intro conjI)
  show "loading (AuthProvider_init sto)"
    by (simp add: AuthProvider_init_def)
  show "loading s \<longrightarrow> ProtectedRoute c (Some (Some s)) = Inr ShowPlaceholder"
    by (simp add: ProtectedRoute_provided ProtectedRoute_render_def ProtectedRoute_effect_def
        ShowPlaceholder_def)
  show "\<exists>shown. App m location (AuthProvider_init sto) = Inr (LoginLink, shown, None) \<and>
      (\<forall>b. shown \<noteq> Element (DashboardView b))"
    by (simp add: App_def Navigation_provided Routes_App_routes render_page_provided
        ProtectedRoute_provided ProtectedRoute_render_def ProtectedRoute_effect_def
        AuthProvider_init_def)
  show "loading st \<and> App m location st = Inr (nav, shown', target) \<longrightarrow>
      target = None \<and> (\<forall>b. shown' \<noteq> Element (DashboardView b))"
  proof (intro impI, elim conjE)
    assume l: "loading st" and a: "App m location st = Inr (nav, shown', target)"
    define el where "el =
      (if m ''/'' location then Page HomePage
       else if m ''/login'' location then Page LoginPage
       else if m ''/dashboard'' location then Protected DashboardPage
       else Page NotFoundPage)"
    have r: "render_element el (Some (Some st)) = Inr (shown', target)"
      using a unfolding App_def Routes_App_routes el_def [symmetric]
      by (auto split: sum.splits prod.splits)
    have "el = Protected DashboardPage \<or> el = Page HomePage \<or> el = Page LoginPage \<or>
        el = Page NotFoundPage"
      by (simp add: el_def)
    then consider (gate) "el = Protected DashboardPage" | (page) p where "el = Page p" "p \<noteq> DashboardPage"
      by auto
    then show "target = None \<and> (\<forall>b. shown' \<noteq> Element (DashboardView b))"
    proof cases
      case gate
      with r render_element_loading [OF l, of DashboardPage] show ?thesis by simp
    next
      case page
      with r render_element_Page_target [of p "Some (Some st)" shown' target] show ?thesis by simp
    qed
  qed
qed

theorem placeholder_while_loading_witness:
  "ProtectedRoute DashboardPage (Some (Some (AuthProvider_init [''user'' \<mapsto> ''5''])))
     = Inr ShowPlaceholder \<and>
   App (=) ''/dashboard'' (AuthProvider_init [''user'' \<mapsto> ''5'']) = Inr (LoginLink, LoadingDiv, None)"
  using placeholder_while_loading [of "[''user'' \<mapsto> ''5'']" "AuthProvider_init [''user'' \<mapsto> ''5'']"
      DashboardPage "(=)" "''/dashboard''" "AuthProvider_init [''user'' \<mapsto> ''5'']"
      LoginLink LoadingDiv None]
  by (simp add: App_def Navigation_provided Routes_App_routes ProtectedRoute_provided
      ProtectedRoute_render_def ProtectedRoute_effect_def ShowPlaceholder_def AuthProvider_init_def)

section \<open>The consumer hook outside the provider\<close>

text \<open>
  C3 as stated fails: called with no \<open>AuthProvider\<close> above, \<open>useAuth\<close> raises nothing
  and returns to its caller the default of the context, \<open>null\<close>.
\<close>

theorem useAuth_returns_default:
  "(useAuth None :: session option) = AuthContext_default \<and>
   (AuthContext_default :: session option) = None"
  by (simp add: useAuth_def useContext_def AuthContext_default_def)

text \<open>
  C3, amended. With no provider above, \<open>useAuth\<close> returns \<open>null\<close> and fails nowhere.
  The failure is the consumer's: each of the five components that call the hook
  destructures the result at once, which throws a TypeError as it renders.
\<close>

theorem useAuth_outside_provider:
  "useAuth None = None \<and>
   ProtectedRoute c None = Inl TypeError \<and>
   HomePage_render None = Inl TypeError \<and>
   LoginPage_render None = Inl TypeError \<and>
   DashboardPage_render None = Inl TypeError \<and>
   Navigation None = Inl TypeError"
  by (simp add: useAuth_def useContext_def AuthContext_default_def ProtectedRoute_def
      HomePage_render_def LoginPage_render_def DashboardPage_render_def Navigation_def
      destructure_def)

section \<open>The routes\<close>

text \<open>
  The order of the routes matters: written first, the wildcard would answer for every
  location, as the comment in App.js warns.
\<close>

lemma Routes_wildcard_first: "Routes m ((''*'', el) # rs) location = Some el"
  by simp

text \<open>
  C8 as stated fails: with a user whose name is an object read back from the store,
  \<open>Navigation\<close> throws on \<open>{user.name}\<close> and \<open>App\<close> shows nothing at a location that
  matches no declared path.
\<close>

theorem not_found_unrenderable_name:
  "AuthProvider_effect
     (AuthProvider_init
        [''user'' \<mapsto> JSON_stringify (JObj [(''id'', JNum 1), (''name'', JObj [(''first'', JStr ''ann'')])])])
   = Inr \<lparr>user = JObj [(''id'', JNum 1), (''name'', JObj [(''first'', JStr ''ann'')])],
          loading = False,
          localStorage =
            [''user'' \<mapsto> JSON_stringify (JObj [(''id'', JNum 1), (''name'', JObj [(''first'', JStr ''ann'')])])]\<rparr> \<and>
   App (=) ''/this-does-not-exist''
     \<lparr>user = JObj [(''id'', JNum 1), (''name'', JObj [(''first'', JStr ''ann'')])],
      loading = False,
      localStorage =
        [''user'' \<mapsto> JSON_stringify (JObj [(''id'', JNum 1), (''name'', JObj [(''first'', JStr ''ann'')])])]\<rparr>
   = Inl InvalidReactChild"
proof -
  let ?u = "JObj [(''id'', JNum 1), (''name'', JObj [(''first'', JStr ''ann'')])]"
  have "wf_value ?u"
    by (simp add: index_like_def is_digit_def)
  then have "JSON_parse (JSON_stringify ?u) = Inr ?u"
    by (rule JSON_parse_stringify)
  then have "AuthProvider_effect (AuthProvider_init [''user'' \<mapsto> JSON_stringify ?u])
      = Inr \<lparr>user = ?u, loading = False, localStorage = [''user'' \<mapsto> JSON_stringify ?u]\<rparr>"
    using JSON_stringify_nonempty [of ?u]
    by (simp add: AuthProvider_effect_def AuthProvider_init_def getItem_def del: JSON_stringify.simps)
  moreover have "App (=) ''/this-does-not-exist''
      \<lparr>user = ?u, loading = False, localStorage = [''user'' \<mapsto> JSON_stringify ?u]\<rparr>
      = Inl InvalidReactChild"
    by (simp add: App_def Navigation_provided render_name_def del: JSON_stringify.simps)
  ultimately show ?thesis by simp
qed

text \<open>
  C8, amended. At a location that matches none of \<open>/\<close>, \<open>/login\<close> and \<open>/dashboard\<close>,
  \<open>App\<close> shows \<open>NotFoundPage\<close> under the navigation and navigates nowhere, in every
  auth state whose user is falsy or has a name that React renders. With a truthy user
  whose name is an object, \<open>App\<close> throws at every location. The wildcard is the last
  route and occurs nowhere before, and at a location that matches a declared path
  \<open>App\<close> never shows \<open>NotFoundPage\<close>.
\<close>

theorem not_found_route:
  "(\<not> m ''/'' location \<and> \<not> m ''/login'' location \<and> \<not> m ''/dashboard'' location \<and>
    (truthy (user st) \<longrightarrow> name_renders (user st)) \<longrightarrow>
      (\<exists>links. App m location st = Inr (links, Element NotFoundView, None))) \<and>
   (truthy (user st) \<and> \<not> name_renders (user st) \<longrightarrow> App m location st = Inl InvalidReactChild) \<and>
   fst (last App_routes) = ''*'' \<and> ''*'' \<notin> set (map fst (butlast App_routes)) \<and>
   (m ''/'' location \<or> m ''/login'' location \<or> m ''/dashboard'' location \<longrightarrow>
      App m location st \<noteq> Inr (nav, Element NotFoundView, target))"
proof (intro conjI)
  show "\<not> m ''/'' location \<and> \<not> m ''/login'' location \<and> \<not> m ''/dashboard'' location \<and>
    (truthy (user st) \<longrightarrow> name_renders (user st)) \<longrightarrow>
      (\<exists>links. App m location st = Inr (links, Element NotFoundView, None))"
    by (auto simp: App_def Navigation_provided Routes_App_routes render_name_cases)
  show "truthy (user st) \<and> \<not> name_renders (user st) \<longrightarrow> App m location st = Inl InvalidReactChild"
    by (simp add: App_def Navigation_provided render_name_cases)
  show "fst (last App_routes) = ''*''" "''*'' \<notin> set (map fst (butlast App_routes))"
    by (simp_all add: App_routes_def)
  show "m ''/'' location \<or> m ''/login'' location \<or> m ''/dashboard'' location \<longrightarrow>
      App m location st \<noteq> Inr (nav, Element NotFoundView, target)"
    by (auto simp: App_def Routes_App_routes render_page_provided ProtectedRoute_provided
        ProtectedRoute_render_def split: sum.splits if_splits)
qed

theorem not_found_route_witness:
  "App (=) ''/this-does-not-exist'' (AuthProvider_init Map.empty)
     = Inr (LoginLink, Element NotFoundView, None) \<and>
   App (=) ''/this-does-not-exist'' \<lparr>user = JNull, loading = False, localStorage = Map.empty\<rparr>
     = Inr (LoginLink, Element NotFoundView, None) \<and>
   App (=) ''/this-does-not-exist''
     \<lparr>user = JObj [(''id'', JNum 1), (''name'', JStr ''ann'')], loading = False, localStorage = Map.empty\<rparr>
     = Inr (DashboardLink (Some (JStr ''ann'')), Element NotFoundView, None) \<and>
   App (=) ''/this-does-not-exist''
     \<lparr>user = JObj [(''id'', JNum 1), (''name'', JObj [(''first'', JStr ''ann'')])], loading = False,
      localStorage = Map.empty\<rparr>
     = Inl InvalidReactChild \<and>
   App (=) ''/login'' (AuthProvider_init Map.empty) = Inr (LoginLink, Element (LoginView LoginForm), None)"
  using not_found_route [of "(=)" "''/this-does-not-exist''" "AuthProvider_init Map.empty"]
    not_found_route [of "(=)" "''/this-does-not-exist''"
      "\<lparr>user = JNull, loading = False, localStorage = Map.empty\<rparr>"]
    not_found_route [of "(=)" "''/this-does-not-exist''"
      "\<lparr>user = JObj [(''id'', JNum 1), (''name'', JStr ''ann'')], loading = False, localStorage = Map.empty\<rparr>"]
    not_found_route [of "(=)" "''/this-does-not-exist''"
      "\<lparr>user = JObj [(''id'', JNum 1), (''name'', JObj [(''first'', JStr ''ann'')])], loading = False,
        localStorage = Map.empty\<rparr>"]
    not_found_route [of "(=)" "''/login''" "AuthProvider_init Map.empty" LoginLink None]
  by (simp add: App_def Navigation_provided Routes_App_routes render_page_provided render_name_def
      name_renders_def AuthProvider_init_def)

section \<open>Login and logout\<close>

text \<open>
  C6. From every state, \<open>login(u)\<close> followed by \<open>logout()\<close> leaves the user \<open>null\<close> and
  no entry under \<open>user\<close> in the store; so does the login form submitted with any
  username followed by the dashboard's logout button, which ends on \<open>/login\<close>.
\<close>

theorem login_then_logout:
  "user (logout (login u st)) = JNull \<and>
   getItem (localStorage (logout (login u st))) ''user'' = None \<and>
   user (fst (handleLogout (fst (handleLogin username st)))) = JNull \<and>
   getItem (localStorage (fst (handleLogout (fst (handleLogin username st))))) ''user'' = None \<and>
   snd (handleLogout (fst (handleLogin username st))) = ''/login''"
  by (simp add: login_def logout_def getItem_def removeItem_def handleLogin_def handleLogout_def)

text \<open>
  C7. \<open>login(u1)\<close> followed by \<open>login(u2)\<close> leaves the user \<open>u2\<close> and the text of \<open>u2\<close>
  in the store; the state is the one \<open>login(u2)\<close> alone would have left.
\<close>

theorem login_twice:
  "user (login u2 (login u1 st)) = u2 \<and>
   getItem (localStorage (login u2 (login u1 st))) ''user'' = Some (JSON_stringify u2) \<and>
   login u2 (login u1 st) = login u2 st"
  by (simp add: login_def getItem_def setItem_def)

lemma AuthProvider_effect_storage:
  "AuthProvider_effect st = Inr st' \<Longrightarrow> localStorage st' = localStorage st"
  by (auto simp: AuthProvider_effect_def split: option.splits if_splits sum.splits)

text \<open>
  C10. \<open>login\<close> and \<open>logout\<close> leave every key of the store other than \<open>user\<close> as it
  was, and hydration leaves the whole store as it was.
\<close>

theorem storage_frame:
  "k \<noteq> ''user'' \<Longrightarrow>
   getItem (localStorage (login u st)) k = getItem (localStorage st) k \<and>
   getItem (localStorage (logout st)) k = getItem (localStorage st) k \<and>
   (AuthProvider_effect st = Inr st' \<longrightarrow> localStorage st' = localStorage st)"
  by (auto simp: login_def logout_def getItem_def setItem_def removeItem_def
      dest: AuthProvider_effect_storage)

theorem storage_frame_witness:
  "getItem (localStorage (login (JStr ''ann'') (AuthProvider_init [''theme'' \<mapsto> ''dark'']))) ''theme''
     = Some ''dark'' \<and>
   getItem (localStorage (logout (AuthProvider_init [''theme'' \<mapsto> ''dark'', ''user'' \<mapsto> ''5''])))
     ''theme'' = Some ''dark'' \<and>
   getItem (localStorage (logout (AuthProvider_init [''theme'' \<mapsto> ''dark'', ''user'' \<mapsto> ''5''])))
     ''user'' = None \<and>
   AuthProvider_effect (AuthProvider_init [''theme'' \<mapsto> ''dark''])
     = Inr \<lparr>user = JNull, loading = False, localStorage = [''theme'' \<mapsto> ''dark'']\<rparr>"
  using storage_frame [of "''theme''" "JStr ''ann''" "AuthProvider_init [''theme'' \<mapsto> ''dark'']"
      "\<lparr>user = JNull, loading = False, localStorage = [''theme'' \<mapsto> ''dark'']\<rparr>"]
    storage_frame [of "''theme''" JNull "AuthProvider_init [''theme'' \<mapsto> ''dark'', ''user'' \<mapsto> ''5'']"]
  by (simp add: getItem_def AuthProvider_init_def AuthProvider_effect_def logout_def removeItem_def)

section \<open>Hydration\<close>

lemma AuthProvider_effect_loading:
  "AuthProvider_effect st = Inr st' \<Longrightarrow> \<not> loading st'"
  by (auto simp: AuthProvider_effect_def split: option.splits if_splits sum.splits)

lemma AuthProvider_handle_loading: "loading (AuthProvider_handle ev st) = loading st"
  by (cases ev) (simp_all add: login_def logout_def)

lemma fold_handle_loading: "loading (fold AuthProvider_handle evs st) = loading st"
  by (induction evs arbitrary: st) (simp_all add: AuthProvider_handle_loading)

text \<open>
  C5. \<open>loading\<close> is true at the first render; the effect, when it completes, leaves it
  false; no login, logout or re-render changes it; so after the effect and any events
  whatever it is false.
\<close>

theorem loading_invariant:
  "loading (AuthProvider_init sto) \<and>
   (AuthProvider_effect (AuthProvider_init sto) = Inr st1 \<longrightarrow> \<not> loading st1) \<and>
   loading (AuthProvider_handle ev st) = loading st \<and>
   (AuthProvider_run sto evs = Inr st2 \<longrightarrow> \<not> loading st2)"
  by (auto simp: AuthProvider_init_def AuthProvider_run_def AuthProvider_handle_loading
      fold_handle_loading dest: AuthProvider_effect_loading split: sum.splits)

theorem loading_invariant_witness:
  "loading (AuthProvider_init Map.empty) \<and>
   AuthProvider_run Map.empty [Login (JStr ''ann''), Rerender, Logout]
     = Inr \<lparr>user = JNull, loading = False, localStorage = Map.empty\<rparr> \<and>
   \<not> loading \<lparr>user = JNull, loading = False, localStorage = Map.empty\<rparr>"
  using loading_invariant [of Map.empty "\<lparr>user = JNull, loading = False, localStorage = Map.empty\<rparr>"
      Rerender "AuthProvider_init Map.empty" "[Login (JStr ''ann''), Rerender, Logout]"
      "\<lparr>user = JNull, loading = False, localStorage = Map.empty\<rparr>"]
  by (simp add: AuthProvider_run_def AuthProvider_effect_def AuthProvider_init_def getItem_def
      login_def logout_def setItem_def removeItem_def)

text \<open>
  C9. What \<open>login(u)\<close> wrote, the effect of the next start reads back as \<open>u\<close>: for
  every value \<open>u\<close> of the model that stands for a JavaScript value, and so for the
  user that \<open>handleLogin\<close> builds from any username.
\<close>

theorem login_then_hydrate:
  "(wf_value u \<longrightarrow>
      AuthProvider_effect (AuthProvider_init (localStorage (login u st))) =
        Inr \<lparr>user = u, loading = False, localStorage = localStorage (login u st)\<rparr>) \<and>
   AuthProvider_effect (AuthProvider_init (localStorage (fst (handleLogin username st)))) =
     Inr \<lparr>user = JObj [(''id'', JNum 1), (''name'', JStr username)], loading = False,
          localStorage = localStorage (fst (handleLogin username st))\<rparr>"
proof -
  have hydrate: "AuthProvider_effect (AuthProvider_init (localStorage (login v st))) =
      Inr \<lparr>user = v, loading = False, localStorage = localStorage (login v st)\<rparr>"
    if "wf_value v" for v
    using that
    by (simp add: AuthProvider_effect_def AuthProvider_init_def login_def getItem_def setItem_def
        JSON_parse_stringify JSON_stringify_nonempty)
  have "wf_value (JObj [(''id'', JNum 1), (''name'', JStr username)])"
    by (simp add: index_like_def is_digit_def)
  from hydrate [OF this] hydrate [of u] show ?thesis
    by (simp add: handleLogin_def)
qed

theorem login_then_hydrate_witness:
  "AuthProvider_effect
     (AuthProvider_init (localStorage (login (JArr [JNum (- 7), JStr ''ann'', JNull]) (AuthProvider_init Map.empty))))
   = Inr \<lparr>user = JArr [JNum (- 7), JStr ''ann'', JNull], loading = False,
          localStorage =
            localStorage (login (JArr [JNum (- 7), JStr ''ann'', JNull]) (AuthProvider_init Map.empty))\<rparr>"
  using login_then_hydrate [of "JArr [JNum (- 7), JStr ''ann'', JNull]" "AuthProvider_init Map.empty"]
  by simp

lemma JSON_parse_bad: "JSON_parse ''{bad'' = Inl SyntaxError"
  by code_simp

lemma JSON_parse_five: "JSON_parse ''5'' = Inr (JNum 5)"
  by code_simp

lemma JSON_parse_zero: "JSON_parse ''0'' = Inr (JNum 0)"
  by code_simp

text \<open>
  C1 as stated fails: with the text \<open>{bad\<close> stored under \<open>user\<close>, \<open>JSON.parse\<close> throws
  and the effect ends in the SyntaxError; \<open>loading\<close> is never set to false.
\<close>

theorem hydrate_corrupt:
  "AuthProvider_effect (AuthProvider_init [''user'' \<mapsto> ''{bad'']) = Inl SyntaxError"
  by (simp add: AuthProvider_effect_def AuthProvider_init_def getItem_def JSON_parse_bad)

text \<open>
  C1, amended. With nothing, or the empty string, stored under \<open>user\<close>, hydration
  completes with the user \<open>null\<close> and the gate redirects to \<open>/login\<close>. A stored text
  that \<open>JSON.parse\<close> rejects is not taken as absent: the effect throws the SyntaxError.
  A stored text that parses becomes the user as it is, and the gate then redirects
  when that value is falsy and renders the children otherwise.
\<close>

theorem hydrate_outcomes:
  "(getItem sto ''user'' = None \<or> getItem sto ''user'' = Some [] \<longrightarrow>
      AuthProvider_effect (AuthProvider_init sto) = Inr ((AuthProvider_init sto)\<lparr>loading := False\<rparr>) \<and>
      ProtectedRoute c (Some (Some ((AuthProvider_init sto)\<lparr>loading := False\<rparr>)))
        = Inr (RedirectTo ''/login'')) \<and>
   (getItem sto ''user'' = Some s \<and> s \<noteq> [] \<and> JSON_parse s = Inl SyntaxError \<longrightarrow>
      AuthProvider_effect (AuthProvider_init sto) = Inl SyntaxError) \<and>
   (getItem sto ''user'' = Some s \<and> s \<noteq> [] \<and> JSON_parse s = Inr v \<longrightarrow>
      AuthProvider_effect (AuthProvider_init sto)
        = Inr ((AuthProvider_init sto)\<lparr>user := v, loading := False\<rparr>) \<and>
      ProtectedRoute c (Some (Some ((AuthProvider_init sto)\<lparr>user := v, loading := False\<rparr>)))
        = Inr (if truthy v then RenderProtected c else RedirectTo ''/login''))"
  by (auto simp: AuthProvider_effect_def ProtectedRoute_settled) (simp_all add: AuthProvider_init_def)

theorem hydrate_outcomes_witness:
  "AuthProvider_effect (AuthProvider_init Map.empty)
     = Inr \<lparr>user = JNull, loading = False, localStorage = Map.empty\<rparr> \<and>
   ProtectedRoute DashboardPage (Some (Some \<lparr>user = JNull, loading = False, localStorage = Map.empty\<rparr>))
     = Inr (RedirectTo ''/login'') \<and>
   AuthProvider_effect (AuthProvider_init [''user'' \<mapsto> []])
     = Inr \<lparr>user = JNull, loading = False, localStorage = [''user'' \<mapsto> []]\<rparr> \<and>
   AuthProvider_effect (AuthProvider_init [''user'' \<mapsto> ''{bad'']) = Inl SyntaxError \<and>
   AuthProvider_effect (AuthProvider_init [''user'' \<mapsto> ''0''])
     = Inr \<lparr>user = JNum 0, loading = False, localStorage = [''user'' \<mapsto> ''0'']\<rparr> \<and>
   ProtectedRoute DashboardPage
     (Some (Some \<lparr>user = JNum 0, loading = False, localStorage = [''user'' \<mapsto> ''0'']\<rparr>))
     = Inr (RedirectTo ''/login'') \<and>
   AuthProvider_effect (AuthProvider_init [''user'' \<mapsto> ''5''])
     = Inr \<lparr>user = JNum 5, loading = False, localStorage = [''user'' \<mapsto> ''5'']\<rparr> \<and>
   ProtectedRoute DashboardPage
     (Some (Some \<lparr>user = JNum 5, loading = False, localStorage = [''user'' \<mapsto> ''5'']\<rparr>))
     = Inr (RenderProtected DashboardPage)"
  using hydrate_outcomes [of Map.empty DashboardPage "[]" JNull]
    hydrate_outcomes [of "[''user'' \<mapsto> []]" DashboardPage "[]" JNull]
    hydrate_outcomes [of "[''user'' \<mapsto> ''{bad'']" DashboardPage "''{bad''" JNull]
    hydrate_outcomes [of "[''user'' \<mapsto> ''0'']" DashboardPage "''0''" "JNum 0"]
    hydrate_outcomes [of "[''user'' \<mapsto> ''5'']" DashboardPage "''5''" "JNum 5"]
  by (simp add: getItem_def JSON_parse_bad JSON_parse_zero JSON_parse_five AuthProvider_init_def)

end
